theory Spec2Isabelle
  imports Complex_Main
begin

section \<open>Disordered fractions from per-residue pLDDT scores\<close>

text \<open>
  A shallow embedding of \<^verbatim>\<open>DisorderFromAlphaFold.py\<close>.

  Conventions of the embedding.
  \<^item> A numpy array is a list. Scores have an arbitrary type of class \<open>ord\<close>: the code only
    ever compares a score with the threshold, and nothing is assumed about \<open>\<le>\<close>, so a
    comparison that is false in both directions (a NaN score) is covered as well.
    \<open>p \<ge> t\<close> is HOL notation for \<open>t \<le> p\<close>.
  \<^item> Indices and lengths (numpy \<open>int64\<close>, far from overflow) are natural numbers; the
    difference of two indices is taken in \<open>int\<close>, as the signed subtraction of the source.
  \<^item> Every exception the code can raise is a value \<open>Inl e\<close> of the result.
  \<^item> The fraction, a float quotient of two integers in the source, is the exact
    quotient in \<open>real\<close>; the integer \<open>0\<close> of \<^verbatim>\<open>return 0, None\<close> is the real \<open>0\<close>.
\<close>

datatype error =
    AssertionError string
  | IndexError
  | StopIteration
  | ZeroDivisionError

subsection \<open>The structure record and the score extraction\<close>

text \<open>
  What the code reads of a Bio.PDB model: its residues, the atoms of each residue and the
  B-factor of an atom.
\<close>

datatype 'a atom = Atom (get_bfactor: 'a)

datatype 'a residue = Residue (get_atoms: "'a atom list")

datatype 'a pdb_model = Model (get_residues: "'a residue list")

text \<open>
  \<^verbatim>\<open>[next(r.get_atoms()).get_bfactor() for r in pdb_model.get_residues()]\<close>:
  \<^verbatim>\<open>next\<close> on a residue without atoms raises StopIteration.
\<close>

fun first_bfactors :: "'a residue list \<Rightarrow> error + 'a list" where
  "first_bfactors [] = Inr []"
| "first_bfactors (r # rs) =
     (case get_atoms r of
        [] \<Rightarrow> Inl StopIteration
      | a # _ \<Rightarrow>
          (case first_bfactors rs of
             Inl e \<Rightarrow> Inl e
           | Inr ps \<Rightarrow> Inr (get_bfactor a # ps)))"

definition getpLDDTsFromAlphaFoldPDBModel :: "'a pdb_model \<Rightarrow> error + 'a list" where
  "getpLDDTsFromAlphaFoldPDBModel pdb_model = first_bfactors (get_residues pdb_model)"

text \<open>
  Python's slice \<^verbatim>\<open>xs[lo:hi]\<close>: a negative bound counts from the end, and every bound is
  clamped to \<open>0 .. len(xs)\<close>; the slice is empty when the bounds cross.
\<close>

definition slice_bound :: "int \<Rightarrow> nat \<Rightarrow> nat" where
  "slice_bound i n =
     (if i < 0 then (if i + int n < 0 then 0 else nat (i + int n))
      else if int n < i then n else nat i)"

definition py_slice :: "'a list \<Rightarrow> int \<Rightarrow> int \<Rightarrow> 'a list" where
  "py_slice xs lo hi =
     (let a = slice_bound lo (length xs); b = slice_bound hi (length xs)
      in take (b - a) (drop a xs))"

definition getpLDDTsSubSequenceFromAlphaFoldPDBModel ::
  "'a pdb_model \<Rightarrow> int option \<Rightarrow> int option \<Rightarrow> error + 'a list" where
  "getpLDDTsSubSequenceFromAlphaFoldPDBModel pdb_model startRes endRes =
     (if endRes = None \<and> startRes = None then getpLDDTsFromAlphaFoldPDBModel pdb_model
      else
        (case startRes of
           None \<Rightarrow>
             Inl (AssertionError ''Must provide BOTH of start res and end res if specified'')
         | Some s \<Rightarrow>
             (case endRes of
                None \<Rightarrow>
                  Inl (AssertionError
                    ''Must provide BOTH of start res and end res if specified'')
              | Some e \<Rightarrow>
                  if s \<le> e then
                    (let AFSequenceLength = int (length (get_residues pdb_model))
                     in if e - s \<le> AFSequenceLength then
                          if e \<le> AFSequenceLength then
                            (case getpLDDTsFromAlphaFoldPDBModel pdb_model of
                               Inl er \<Rightarrow> Inl er
                             | Inr ps \<Rightarrow> Inr (py_slice ps (s - 1) e))
                          else Inl (AssertionError
                            ''Residue Sub Selection outside of AlphaFold Sequence!'')
                        else Inl (AssertionError
                          ''Residue Sub Selection larger than AlphaFold sequence!''))
                  else Inl (AssertionError
                    ''Start Residue number sub-sequence is greater than end residue number!''))))"

subsection \<open>Run detection\<close>

text \<open>\<^verbatim>\<open>np.argwhere(b)[:, 0]\<close> and \<^verbatim>\<open>np.where(b)[0]\<close>: the positions of the true entries.\<close>

definition argwhere :: "bool list \<Rightarrow> nat list" where
  "argwhere bs = filter (\<lambda>i. bs ! i) [0..<length bs]"

text \<open>
  The inner \<^verbatim>\<open>while\<close> loop. \<open>idx + 1\<close> is read first; beyond the end of the array the
  read raises IndexError.
\<close>

function while_loop :: "nat list \<Rightarrow> nat \<Rightarrow> nat \<Rightarrow> error + nat" where
  "while_loop pLDDTIndices idx len =
     (if idx + 1 < length pLDDTIndices then
        (if pLDDTIndices ! (idx + 1) = pLDDTIndices ! idx + 1
         then while_loop pLDDTIndices (idx + 1) (len + 1)
         else Inr len)
      else Inl IndexError)"
  by pat_completeness auto
termination
  by (relation "measure (\<lambda>(P, idx, len). length P - idx)") auto

declare while_loop.simps [simp del]

text \<open>
  The \<^verbatim>\<open>for i in range(...)\<close> loop, over the remaining values of \<open>i\<close>; it writes
  \<open>consecutiveLens[i]\<close>.
\<close>

fun for_loop :: "nat list \<Rightarrow> nat list \<Rightarrow> nat list \<Rightarrow> nat list \<Rightarrow> error + nat list" where
  "for_loop pLDDTIndices consecutivepLDDTIndices [] consecutiveLens = Inr consecutiveLens"
| "for_loop pLDDTIndices consecutivepLDDTIndices (i # is) consecutiveLens =
     (case while_loop pLDDTIndices (consecutivepLDDTIndices ! i) 1 of
        Inl e \<Rightarrow> Inl e
      | Inr len \<Rightarrow>
          for_loop pLDDTIndices consecutivepLDDTIndices is (consecutiveLens[i := len]))"

definition getConsecutivepLDDTFromThreshold ::
  "'a::ord list \<Rightarrow> 'a \<Rightarrow> bool \<Rightarrow> error + (nat list option \<times> nat list option)" where
  "getConsecutivepLDDTFromThreshold pLDDTs pLDDTThreshold aboveThreshold =
     (let pLDDTIndices =
            (if aboveThreshold
             then argwhere (map (\<lambda>p. p \<ge> pLDDTThreshold) pLDDTs)
             else argwhere (map (\<lambda>p. p \<le> pLDDTThreshold) pLDDTs))
      in if length pLDDTIndices = 0 then Inr (None, None)
         else
           (let pLDDTIndices' = pLDDTIndices @ [last pLDDTIndices];
                consecutivepLDDTIndices =
                  map (\<lambda>i. i + 1)
                    (argwhere (map2 (\<lambda>a b. int a - int b > 1)
                       (tl pLDDTIndices') (butlast pLDDTIndices')));
                consecutivepLDDTIndices' = 0 # consecutivepLDDTIndices;
                consecutiveLens = replicate (length consecutivepLDDTIndices') 0
            in case for_loop pLDDTIndices' consecutivepLDDTIndices'
                      [0..<length consecutivepLDDTIndices'] consecutiveLens of
                 Inl e \<Rightarrow> Inl e
               | Inr lens \<Rightarrow> Inr (Some consecutivepLDDTIndices', Some lens)))"

definition getConsecutiveDisorderedFrompLDDTs ::
  "'a::ord list \<Rightarrow> 'a \<Rightarrow> error + (nat list option \<times> nat list option)" where
  "getConsecutiveDisorderedFrompLDDTs pLDDTs pLDDTDisorderThreshold =
     getConsecutivepLDDTFromThreshold pLDDTs pLDDTDisorderThreshold False"

definition getConsecutiveOrderedFrompLDDTs ::
  "'a::ord list \<Rightarrow> 'a \<Rightarrow> error + (nat list option \<times> nat list option)" where
  "getConsecutiveOrderedFrompLDDTs pLDDTs pLDDTOrderThreshold =
     getConsecutivepLDDTFromThreshold pLDDTs pLDDTOrderThreshold True"

subsection \<open>The disordered fraction\<close>

text \<open>
  \<^verbatim>\<open>lengths[lengths >= cutoff]\<close> is a filter; the cutoff is any integer. Dividing by
  \<open>len(pLDDTs) = 0\<close> is written out as a failure; \<open>division_reached_nonempty\<close> below shows
  that the division is never reached with an empty sequence.
\<close>

definition getDisorderedFractionFrompLDDTs ::
  "'a::ord list \<Rightarrow> 'a \<Rightarrow> int \<Rightarrow> error + (real \<times> nat list option)" where
  "getDisorderedFractionFrompLDDTs pLDDTs pLDDTDisorderThreshold
       numberConsectuivelyDisorderThreshold =
     (case getConsecutiveDisorderedFrompLDDTs pLDDTs pLDDTDisorderThreshold of
        Inl e \<Rightarrow> Inl e
      | Inr (disorderedStretchesIndices, disorderedStretchesLengths) \<Rightarrow>
          (case disorderedStretchesIndices of
             None \<Rightarrow> Inr (0, None)
           | Some _ \<Rightarrow>
               (case disorderedStretchesLengths of
                  None \<Rightarrow> Inr (0, None)
                | Some lens \<Rightarrow>
                    (let disorderedLengthsFiltered =
                           filter (\<lambda>l. int l \<ge> numberConsectuivelyDisorderThreshold) lens
                     in if length pLDDTs = 0 then Inl ZeroDivisionError
                        else Inr (real (sum_list disorderedLengthsFiltered)
                                    / real (length pLDDTs),
                                  Some disorderedLengthsFiltered)))))"

section \<open>Auxiliary definitions for the proofs\<close>

text \<open>
  The indices the threshold selects (the first value of \<open>pLDDTIndices\<close> in
  \<open>getConsecutivepLDDTFromThreshold\<close>).
\<close>

definition selected :: "'a::ord list \<Rightarrow> 'a \<Rightarrow> bool \<Rightarrow> nat list" where
  "selected pLDDTs t aboveThreshold =
     (if aboveThreshold then argwhere (map (\<lambda>p. p \<ge> t) pLDDTs)
      else argwhere (map (\<lambda>p. p \<le> t) pLDDTs))"

text \<open>
  The values the source computes for \<open>consecutivepLDDTIndices\<close> before the leading zero is
  inserted, restricted to the positions from \<open>i\<close> on; the argument is the index array
  with its last entry duplicated.
\<close>

definition new_stretches :: "nat list \<Rightarrow> nat \<Rightarrow> nat list" where
  "new_stretches P' i =
     map Suc (filter (\<lambda>k. 1 < int (P' ! Suc k) - int (P' ! k)) [i..<length P' - 1])"

text \<open>The \<^verbatim>\<open>for\<close> loop as a recursion over the list of start positions.\<close>

fun stretch_lengths :: "nat list \<Rightarrow> nat list \<Rightarrow> error + nat list" where
  "stretch_lengths P [] = Inr []"
| "stretch_lengths P (c # cs) =
     (case while_loop P c 1 of
        Inl e \<Rightarrow> Inl e
      | Inr l \<Rightarrow> (case stretch_lengths P cs of Inl e \<Rightarrow> Inl e | Inr ls \<Rightarrow> Inr (l # ls)))"

section \<open>The scan over the selected indices\<close>

lemma for_loop_stretch_lengths:
  "k \<le> length c \<Longrightarrow> length lens = length c \<Longrightarrow>
   for_loop P c [k..<length c] lens =
     (case stretch_lengths P (drop k c) of Inl e \<Rightarrow> Inl e | Inr ls \<Rightarrow> Inr (take k lens @ ls))"
proof (induction "length c - k" arbitrary: k lens)
  case 0
  then show ?case by simp
next
  case (Suc d)
  then have k: "k < length c" by arith
  then have upt: "[k..<length c] = k # [Suc k..<length c]" by (simp add: upt_conv_Cons)
  have drop: "drop k c = c ! k # drop (Suc k) c" using k by (simp add: Cons_nth_drop_Suc)
  show ?case
  proof (cases "while_loop P (c ! k) 1")
    case (Inl e)
    then show ?thesis by (simp add: upt drop)
  next
    case (Inr l)
    have d: "d = length c - Suc k" using Suc.hyps(2) by arith
    have IH: "for_loop P c [Suc k..<length c] (lens[k := l]) =
       (case stretch_lengths P (drop (Suc k) c) of Inl e \<Rightarrow> Inl e
        | Inr ls \<Rightarrow> Inr (take (Suc k) (lens[k := l]) @ ls))"
      using Suc.hyps(1)[OF d] k Suc.prems by simp
    have tk: "take (Suc k) (lens[k := l]) = take k lens @ [l]"
      using k Suc.prems by (simp add: take_Suc_conv_app_nth)
    show ?thesis
      using Inr IH tk by (simp add: upt drop split: sum.splits)
  qed
qed

lemma while_loop_Suc:
  "while_loop P i (Suc l) = (case while_loop P i l of Inl e \<Rightarrow> Inl e | Inr r \<Rightarrow> Inr (Suc r))"
proof (induction P i l rule: while_loop.induct)
  case (1 P idx len)
  show ?case
    using "1.IH"
    by (subst while_loop.simps, subst (2) while_loop.simps) simp
qed

lemma argwhere_adjacent:
  "argwhere (map2 f (tl xs) (butlast xs)) =
     filter (\<lambda>k. f (xs ! Suc k) (xs ! k)) [0..<length xs - 1]"
  unfolding argwhere_def
  by (rule filter_cong) (simp_all add: nth_tl nth_butlast)

lemma stretch_lengths_Cons_Inr:
  "stretch_lengths P (c # cs) = Inr ls \<longleftrightarrow>
     (\<exists>l rest. ls = l # rest \<and> while_loop P c 1 = Inr l \<and> stretch_lengths P cs = Inr rest)"
  by (auto split: sum.splits)

lemma nth_dup_last:
  assumes "P \<noteq> []"
  shows "k < length P \<Longrightarrow> (P @ [last P]) ! k = P ! k"
    and "(P @ [last P]) ! length P = P ! (length P - 1)"
  using assms by (simp_all add: nth_append last_conv_nth)

lemma step_last:
  assumes "P \<noteq> []" "Suc i = length P"
  shows "new_stretches (P @ [last P]) i = []"
    and "while_loop (P @ [last P]) i 1 = Inr 1"
proof -
  have e: "(P @ [last P]) ! Suc i = (P @ [last P]) ! i"
    using assms nth_dup_last[OF assms(1)] by (metis diff_Suc_1 lessI)
  show "new_stretches (P @ [last P]) i = []"
    using assms e by (simp add: new_stretches_def upt_conv_Cons)
  show "while_loop (P @ [last P]) i 1 = Inr 1"
    using assms e by (subst while_loop.simps) simp
qed

lemma step_contiguous:
  assumes "Suc i < length P" "P ! Suc i = P ! i + 1"
  shows "new_stretches (P @ [last P]) i = new_stretches (P @ [last P]) (Suc i)"
    and "while_loop (P @ [last P]) i 1 =
           (case while_loop (P @ [last P]) (Suc i) 1 of Inl e \<Rightarrow> Inl e | Inr r \<Rightarrow> Inr (Suc r))"
proof -
  show "new_stretches (P @ [last P]) i = new_stretches (P @ [last P]) (Suc i)"
    using assms by (simp add: new_stretches_def upt_conv_Cons nth_append)
  have "while_loop (P @ [last P]) i 1 = while_loop (P @ [last P]) (Suc i) (Suc 1)"
    using assms by (subst while_loop.simps) (simp add: nth_append)
  then show "while_loop (P @ [last P]) i 1 =
           (case while_loop (P @ [last P]) (Suc i) 1 of Inl e \<Rightarrow> Inl e | Inr r \<Rightarrow> Inr (Suc r))"
    by (simp only: while_loop_Suc)
qed

lemma step_gap:
  assumes "Suc i < length P" "P ! i < P ! Suc i" "P ! Suc i \<noteq> P ! i + 1"
  shows "new_stretches (P @ [last P]) i = Suc i # new_stretches (P @ [last P]) (Suc i)"
    and "while_loop (P @ [last P]) i 1 = Inr 1"
proof -
  show "new_stretches (P @ [last P]) i = Suc i # new_stretches (P @ [last P]) (Suc i)"
    using assms by (simp add: new_stretches_def upt_conv_Cons nth_append)
  show "while_loop (P @ [last P]) i 1 = Inr 1"
    using assms by (subst while_loop.simps) (simp add: nth_append)
qed

lemma new_stretches_bounds:
  "s \<in> set (new_stretches P' i) \<Longrightarrow> i < s \<and> s < length P'"
  by (auto simp: new_stretches_def)

lemma stretches_from:
  assumes ne: "P \<noteq> []" and inc: "sorted_wrt (<) P"
  shows "i < length P \<Longrightarrow>
    \<exists>ls. stretch_lengths (P @ [last P]) (i # new_stretches (P @ [last P]) i) = Inr ls
       \<and> length ls = Suc (length (new_stretches (P @ [last P]) i))
       \<and> sum_list ls = length P - i
       \<and> (\<forall>l\<in>set ls. 1 \<le> l)
       \<and> sorted_wrt (\<lambda>(s, l) (s', l'). s + l \<le> s')
            (zip (i # new_stretches (P @ [last P]) i) ls)
       \<and> (\<forall>(s, l)\<in>set (zip (i # new_stretches (P @ [last P]) i) ls).
             s + l \<le> length P \<and> (\<forall>k<l. P ! (s + k) = P ! s + k))"
proof (induction "length P - Suc i" arbitrary: i)
  case 0
  then have last: "Suc i = length P" by arith
  show ?case
    using step_last[OF ne last] by (simp add: last[symmetric])
next
  case (Suc d)
  then have lt: "Suc i < length P" and d: "d = length P - Suc (Suc i)" by arith+
  let ?P' = "P @ [last P]"
  from Suc.hyps(1)[OF d lt] obtain ls0 where
    sl: "stretch_lengths ?P' (Suc i # new_stretches ?P' (Suc i)) = Inr ls0"
    and len: "length ls0 = Suc (length (new_stretches ?P' (Suc i)))"
    and sum: "sum_list ls0 = length P - Suc i"
    and pos: "\<forall>l\<in>set ls0. 1 \<le> l"
    and sep: "sorted_wrt (\<lambda>(s, l) (s', l'). s + l \<le> s')
            (zip (Suc i # new_stretches ?P' (Suc i)) ls0)"
    and blk: "\<forall>(s, l)\<in>set (zip (Suc i # new_stretches ?P' (Suc i)) ls0).
             s + l \<le> length P \<and> (\<forall>k<l. P ! (s + k) = P ! s + k)"
    by blast
  from sl obtain l0 rest where
    ls0: "ls0 = l0 # rest" and w0: "while_loop ?P' (Suc i) 1 = Inr l0"
    and r0: "stretch_lengths ?P' (new_stretches ?P' (Suc i)) = Inr rest"
    unfolding stretch_lengths_Cons_Inr by blast
  have e: "Suc (length P - Suc i) = length P - i" using lt by arith
  have mono: "P ! i < P ! Suc i"
    using inc lt by (simp add: sorted_wrt_iff_nth_less)
  show ?case
  proof (cases "P ! Suc i = P ! i + 1")
    case True
    note st = step_contiguous[OF lt True]
    have blk_i: "\<forall>k<Suc l0. P ! (i + k) = P ! i + k"
    proof (intro allI impI)
      fix k assume k: "k < Suc l0"
      show "P ! (i + k) = P ! i + k"
      proof (cases k)
        case 0 then show ?thesis by simp
      next
        case (Suc k')
        then have "P ! (Suc i + k') = P ! Suc i + k'"
          using blk k ls0 by simp
        then show ?thesis using Suc True by simp
      qed
    qed
    show ?thesis
      apply (rule exI[of _ "Suc l0 # rest"])
      using st w0 r0 len sum pos sep blk blk_i lt
      by (simp add: ls0 e)
  next
    case False
    note st = step_gap[OF lt mono False]
    have later: "\<forall>(s, l)\<in>set (zip (new_stretches ?P' (Suc i)) rest). Suc i \<le> s"
      by (auto dest!: set_zip_leftD new_stretches_bounds)
    show ?thesis
      apply (rule exI[of _ "1 # l0 # rest"])
      using st w0 r0 len sum pos sep blk lt later
      by (simp add: ls0 e)
  qed
qed

lemma sorted_argwhere: "sorted_wrt (<) (argwhere bs)"
  unfolding argwhere_def by (rule sorted_wrt_filter) (rule sorted_wrt_upt)

lemma length_argwhere_map: "length (argwhere (map f xs)) = length (filter f xs)"
proof -
  have "{i. i < length [0..<length xs] \<and> map f xs ! ([0..<length xs] ! i)} =
        {i. i < length xs \<and> f (xs ! i)}"
    by auto
  then show ?thesis
    unfolding argwhere_def by (simp add: length_filter_conv_card)
qed

lemma sorted_new_stretches: "sorted_wrt (<) (i # new_stretches P' i)"
  by (auto simp: new_stretches_def sorted_wrt_map intro!: sorted_wrt_filter
        sorted_wrt_mono_rel[OF _ sorted_wrt_upt])

lemma for_loop_all:
  "for_loop P c [0..<length c] (replicate (length c) 0) = stretch_lengths P c"
  using for_loop_stretch_lengths[of 0 c "replicate (length c) 0" P]
  by (simp split: sum.splits)

lemma run_detection_none:
  "selected S t aboveThreshold = [] \<Longrightarrow> getConsecutivepLDDTFromThreshold S t aboveThreshold = Inr (None, None)"
  by (simp add: getConsecutivepLDDTFromThreshold_def selected_def)

lemma run_detection_some:
  assumes "selected S t aboveThreshold \<noteq> []"
  shows "getConsecutivepLDDTFromThreshold S t aboveThreshold =
     (case stretch_lengths (selected S t aboveThreshold @ [last (selected S t aboveThreshold)])
             (0 # new_stretches (selected S t aboveThreshold @ [last (selected S t aboveThreshold)]) 0) of
        Inl e \<Rightarrow> Inl e
      | Inr ls \<Rightarrow>
          Inr (Some (0 # new_stretches (selected S t aboveThreshold @ [last (selected S t aboveThreshold)]) 0),
               Some ls))"
proof -
  let ?P = "selected S t aboveThreshold"
  let ?P' = "?P @ [last ?P]"
  let ?c = "0 # new_stretches ?P' 0"
  have c: "map (\<lambda>i. i + 1) (argwhere (map2 (\<lambda>a b. int a - int b > 1) (tl ?P') (butlast ?P')))
        = new_stretches ?P' 0"
    by (simp only: argwhere_adjacent new_stretches_def) simp
  note loop = for_loop_all[of ?P' ?c]
  show ?thesis
    unfolding getConsecutivepLDDTFromThreshold_def selected_def[symmetric] Let_def
    by (simp only: c loop length_0_conv assms if_False)
qed

lemma sorted_selected: "sorted_wrt (<) (selected S t aboveThreshold)"
  by (simp add: selected_def sorted_argwhere)

lemma length_selected:
  "length (selected S t aboveThreshold) =
     length (filter (\<lambda>p. if aboveThreshold then p \<ge> t else p \<le> t) S)"
  by (simp add: selected_def length_argwhere_map)

lemma run_detection_runs:
  assumes ne: "selected S t aboveThreshold \<noteq> []"
  shows "\<exists>ls. getConsecutivepLDDTFromThreshold S t aboveThreshold =
          Inr (Some (0 # new_stretches
                 (selected S t aboveThreshold @ [last (selected S t aboveThreshold)]) 0),
               Some ls)
       \<and> length ls = Suc (length (new_stretches
            (selected S t aboveThreshold @ [last (selected S t aboveThreshold)]) 0))
       \<and> sum_list ls = length (selected S t aboveThreshold)
       \<and> (\<forall>l\<in>set ls. 1 \<le> l)
       \<and> sorted_wrt (\<lambda>(s, l) (s', l'). s + l \<le> s')
            (zip (0 # new_stretches
               (selected S t aboveThreshold @ [last (selected S t aboveThreshold)]) 0) ls)
       \<and> (\<forall>(s, l)\<in>set (zip (0 # new_stretches
               (selected S t aboveThreshold @ [last (selected S t aboveThreshold)]) 0) ls).
             s + l \<le> length (selected S t aboveThreshold) \<and>
             (\<forall>k<l. selected S t aboveThreshold ! (s + k) = selected S t aboveThreshold ! s + k))"
proof -
  have pos: "0 < length (selected S t aboveThreshold)" using ne by simp
  from stretches_from[OF ne sorted_selected pos] obtain ls where
    sl: "stretch_lengths (selected S t aboveThreshold @ [last (selected S t aboveThreshold)])
           (0 # new_stretches
              (selected S t aboveThreshold @ [last (selected S t aboveThreshold)]) 0) = Inr ls"
    and rest: "length ls = Suc (length (new_stretches
            (selected S t aboveThreshold @ [last (selected S t aboveThreshold)]) 0))"
       "sum_list ls = length (selected S t aboveThreshold) - 0"
       "\<forall>l\<in>set ls. 1 \<le> l"
       "sorted_wrt (\<lambda>(s, l) (s', l'). s + l \<le> s')
            (zip (0 # new_stretches
               (selected S t aboveThreshold @ [last (selected S t aboveThreshold)]) 0) ls)"
       "\<forall>(s, l)\<in>set (zip (0 # new_stretches
               (selected S t aboveThreshold @ [last (selected S t aboveThreshold)]) 0) ls).
             s + l \<le> length (selected S t aboveThreshold) \<and>
             (\<forall>k<l. selected S t aboveThreshold ! (s + k) = selected S t aboveThreshold ! s + k)"
    by blast
  have "getConsecutivepLDDTFromThreshold S t aboveThreshold =
          Inr (Some (0 # new_stretches
                 (selected S t aboveThreshold @ [last (selected S t aboveThreshold)]) 0),
               Some ls)"
    by (simp only: run_detection_some[OF ne] sl sum.case)
  with rest show ?thesis by (intro exI[of _ ls]) simp
qed

lemma gap_before_new_stretch:
  assumes ne: "P \<noteq> []" and s: "s \<in> set (new_stretches (P @ [last P]) 0)"
  shows "0 < s \<and> s < length P \<and> P ! (s - 1) + 1 < P ! s"
proof -
  from s obtain k where k: "s = Suc k" "k < length P"
    and gap: "1 < int ((P @ [last P]) ! Suc k) - int ((P @ [last P]) ! k)"
    by (auto simp: new_stretches_def)
  have "Suc k \<noteq> length P"
  proof
    assume e: "Suc k = length P"
    have "(P @ [last P]) ! Suc k = (P @ [last P]) ! k"
      using nth_dup_last[OF ne] e by (metis diff_Suc_1 lessI)
    with gap show False by simp
  qed
  with k have lt: "Suc k < length P" by arith
  with gap k show ?thesis by (simp add: nth_append)
qed

lemma increasing_nth_le:
  "sorted_wrt (<) (P :: nat list) \<Longrightarrow> i \<le> j \<Longrightarrow> j < length P \<Longrightarrow> P ! i \<le> P ! j"
  by (cases "i = j") (auto simp: sorted_wrt_iff_nth_less intro: less_imp_le)

lemma run_detection_Some_iff:
  "getConsecutivepLDDTFromThreshold S t aboveThreshold = Inr (Some starts, Some lens)
     \<Longrightarrow> selected S t aboveThreshold \<noteq> []"
  using run_detection_none[of S t aboveThreshold] by auto





section \<open>The fraction\<close>

lemma selected_Nil_iff:
  "selected S t False = [] \<longleftrightarrow> (\<forall>p\<in>set S. \<not> p \<le> t)"
proof -
  have "selected S t False = [] \<longleftrightarrow> length (filter (\<lambda>p. p \<le> t) S) = 0"
    using length_selected[of S t False] by (simp flip: length_0_conv)
  also have "\<dots> \<longleftrightarrow> filter (\<lambda>p. p \<le> t) S = []" by (rule length_0_conv)
  also have "\<dots> \<longleftrightarrow> (\<forall>p\<in>set S. \<not> p \<le> t)" by (rule filter_empty_conv)
  finally show ?thesis .
qed

lemma selected_nonempty_scores: "selected S t aboveThreshold \<noteq> [] \<Longrightarrow> S \<noteq> []"
  using length_selected[of S t aboveThreshold] by auto

lemma sum_list_filter_le: "sum_list (filter Q xs) \<le> sum_list (xs :: nat list)"
  by (induction xs) auto

lemma fraction_none:
  "selected S t False = [] \<Longrightarrow> getDisorderedFractionFrompLDDTs S t m = Inr (0, None)"
  by (simp add: getDisorderedFractionFrompLDDTs_def getConsecutiveDisorderedFrompLDDTs_def
      run_detection_none)

lemma fraction_some:
  assumes ne: "selected S t False \<noteq> []"
  shows "\<exists>starts lens.
      getConsecutiveDisorderedFrompLDDTs S t = Inr (Some starts, Some lens)
    \<and> sum_list lens = length (filter (\<lambda>p. p \<le> t) S)
    \<and> (\<forall>l\<in>set lens. 1 \<le> l)
    \<and> getDisorderedFractionFrompLDDTs S t m =
        Inr (real (sum_list (filter (\<lambda>l. m \<le> int l) lens)) / real (length S),
             Some (filter (\<lambda>l. m \<le> int l) lens))"
proof -
  from run_detection_runs[OF ne] obtain starts lens where
    r: "getConsecutivepLDDTFromThreshold S t False = Inr (Some starts, Some lens)"
    and s: "sum_list lens = length (selected S t False)" and p: "\<forall>l\<in>set lens. 1 \<le> l"
    by blast
  have S: "S \<noteq> []" by (rule selected_nonempty_scores[OF ne])
  have "getDisorderedFractionFrompLDDTs S t m =
        Inr (real (sum_list (filter (\<lambda>l. m \<le> int l) lens)) / real (length S),
             Some (filter (\<lambda>l. m \<le> int l) lens))"
    using S by (simp add: getDisorderedFractionFrompLDDTs_def
        getConsecutiveDisorderedFrompLDDTs_def r Let_def)
  with r s p show ?thesis
    by (simp add: getConsecutiveDisorderedFrompLDDTs_def length_selected)
qed

lemma division_reached_nonempty:
  "getConsecutiveDisorderedFrompLDDTs S t = Inr (Some starts, Some lens) \<Longrightarrow> S \<noteq> []"
  unfolding getConsecutiveDisorderedFrompLDDTs_def
  by (rule selected_nonempty_scores[OF run_detection_Some_iff])

section \<open>The sub-sequence extractor\<close>

lemma length_first_bfactors: "first_bfactors rs = Inr ps \<Longrightarrow> length ps = length rs"
  by (induction rs arbitrary: ps) (auto split: list.splits sum.splits)

lemma length_getpLDDTs:
  "getpLDDTsFromAlphaFoldPDBModel pdb_model = Inr scores
     \<Longrightarrow> length scores = length (get_residues pdb_model)"
  unfolding getpLDDTsFromAlphaFoldPDBModel_def by (rule length_first_bfactors)

lemma py_slice_in_range:
  "0 \<le> lo \<Longrightarrow> lo \<le> hi \<Longrightarrow> hi \<le> int (length xs)
     \<Longrightarrow> py_slice xs lo hi = take (nat (hi - lo)) (drop (nat lo) xs)"
  by (simp add: py_slice_def slice_bound_def Let_def nat_diff_distrib)

section \<open>The claims\<close>

text \<open>
  Claim C1. For every score sequence, threshold and direction, the lengths of all the runs
  that run detection finds (before any filtering by length) add up to the number of
  scores that satisfy the threshold predicate: \<open>\<le>\<close> the threshold in the disorder
  direction, \<open>\<ge>\<close> the threshold in the order direction. When no score satisfies the
  predicate the function returns \<open>(None, None)\<close>: no run, and the count is zero. In
  particular the function never raises.
\<close>

theorem run_lengths_sum_to_count:
  "(getConsecutivepLDDTFromThreshold S t aboveThreshold = Inr (None, None)
      \<and> length (filter (\<lambda>p. if aboveThreshold then p \<ge> t else p \<le> t) S) = 0)
   \<or> (\<exists>starts lens.
         getConsecutivepLDDTFromThreshold S t aboveThreshold = Inr (Some starts, Some lens)
       \<and> sum_list lens = length (filter (\<lambda>p. if aboveThreshold then p \<ge> t else p \<le> t) S))"
proof (cases "selected S t aboveThreshold = []")
  case True
  then show ?thesis
    using run_detection_none[OF True] length_selected[of S t aboveThreshold] by simp
next
  case False
  from run_detection_runs[OF False] show ?thesis
    unfolding length_selected by blast
qed

text \<open>
  Claim C2. Whenever run detection returns runs, there is one length for each start, every
  run has length at least 1, the starts are strictly increasing, and the runs are
  pairwise disjoint. A returned start \<open>s\<close> is a position in the array of selected indices
  (\<open>selected\<close>, the source's \<open>pLDDTIndices\<close>), and a run \<open>(s, l)\<close> is the entries
  \<open>s, \<dots>, s + l - 1\<close> of that array: these ranges are disjoint (fourth conjunct). The
  residues of the run are \<open>selected ! s, \<dots>, selected ! s + l - 1\<close>, and a later run
  begins strictly after the residue that follows an earlier run (fifth conjunct): the
  runs are disjoint and not adjacent along the sequence. \<open>sorted_wrt\<close> relates every
  earlier element to every later one.
\<close>

theorem runs_positive_disjoint_increasing:
  assumes ret: "getConsecutivepLDDTFromThreshold S t aboveThreshold = Inr (Some starts, Some lens)"
  shows "length lens = length starts
       \<and> (\<forall>l\<in>set lens. 1 \<le> l)
       \<and> sorted_wrt (<) starts
       \<and> sorted_wrt (\<lambda>(s, l) (s', l'). s + l \<le> s') (zip starts lens)
       \<and> sorted_wrt (\<lambda>(s, l) (s', l').
            selected S t aboveThreshold ! s + l < selected S t aboveThreshold ! s')
           (zip starts lens)"
proof -
  let ?P = "selected S t aboveThreshold"
  let ?P' = "?P @ [last ?P]"
  have ne: "?P \<noteq> []" by (rule run_detection_Some_iff[OF ret])
  from run_detection_runs[OF ne] ret have
    starts: "starts = 0 # new_stretches ?P' 0"
    and len: "length lens = Suc (length (new_stretches ?P' 0))"
    and pos: "\<forall>l\<in>set lens. 1 \<le> l"
    and sep: "sorted_wrt (\<lambda>(s, l) (s', l'). s + l \<le> s') (zip starts lens)"
    and blk: "\<forall>(s, l)\<in>set (zip starts lens).
             s + l \<le> length ?P \<and> (\<forall>k<l. ?P ! (s + k) = ?P ! s + k)"
    by auto
  have inc: "sorted_wrt (<) starts"
    unfolding starts by (rule sorted_new_stretches)
  have res: "?P ! s + l < ?P ! s'"
    if x: "(s, l) \<in> set (zip starts lens)" and y: "(s', l') \<in> set (zip starts lens)"
      and le: "s + l \<le> s'" for s l s' l'
  proof -
    have l: "1 \<le> l" using pos set_zip_rightD[OF x] by blast
    have "s' \<in> set starts" using set_zip_leftD[OF y] .
    with le l have "s' \<in> set (new_stretches ?P' 0)" unfolding starts by auto
    from gap_before_new_stretch[OF ne this]
    have s': "0 < s'" "s' < length ?P" "?P ! (s' - 1) + 1 < ?P ! s'" by simp_all
    have "\<forall>k<l. ?P ! (s + k) = ?P ! s + k" using blk x by blast
    moreover have "l - 1 < l" using l by arith
    ultimately have "?P ! (s + (l - 1)) = ?P ! s + (l - 1)" by blast
    moreover have "?P ! (s + (l - 1)) \<le> ?P ! (s' - 1)"
      using le l s' by (intro increasing_nth_le[OF sorted_selected]) arith+
    ultimately show ?thesis using s'(3) l by arith
  qed
  have "sorted_wrt (\<lambda>(s, l) (s', l'). ?P ! s + l < ?P ! s') (zip starts lens)"
    by (rule sorted_wrt_mono_rel[OF _ sep]) (auto intro: res)
  with len pos inc sep show ?thesis by (simp add: starts)
qed

text \<open>
  The theorem at the scenario \<open>[90, 40, 35, 92, 20, 15, 10, 88]\<close> with threshold 50.
\<close>

theorem runs_positive_disjoint_increasing_witness:
  "getConsecutivepLDDTFromThreshold [90, 40, 35, 92, 20, 15, 10, 88 :: int] 50 False
     = Inr (Some [0, 2], Some [2, 3])
   \<and> length [2, 3 :: nat] = length [0, 2 :: nat]
   \<and> sorted_wrt (<) [0, 2 :: nat]
   \<and> sorted_wrt (\<lambda>(s, l) (s', l'). s + l \<le> s') (zip [0, 2 :: nat] [2, 3 :: nat])
   \<and> sorted_wrt (\<lambda>(s, l) (s', l').
        selected [90, 40, 35, 92, 20, 15, 10, 88 :: int] 50 False ! s + l
          < selected [90, 40, 35, 92, 20, 15, 10, 88 :: int] 50 False ! s')
       (zip [0, 2 :: nat] [2, 3 :: nat])"
proof -
  have h: "getConsecutivepLDDTFromThreshold [90, 40, 35, 92, 20, 15, 10, 88 :: int] 50 False
     = Inr (Some [0, 2], Some [2, 3])"
    by code_simp
  from runs_positive_disjoint_increasing[OF h] h show ?thesis by blast
qed

text \<open>
  Claim C3. The claim says that the start of a run is the position in the score sequence
  of the first residue of the block. The code returns \<open>consecutivepLDDTIndices\<close>, which
  holds positions in the array of selected indices, not positions in the score sequence.
  For the scores \<open>[90, 40, 35, 92, 20]\<close> and the disorder threshold 50 the selected
  indices are \<open>[1, 2, 4]\<close>, so the blocks begin at residues 1 and 4, and the function
  returns the starts \<open>[0, 2]\<close>.
\<close>

theorem start_is_position_in_index_array:
  "getConsecutivepLDDTFromThreshold [90, 40, 35, 92, 20 :: real] 50 False
     = Inr (Some [0, 2], Some [2, 1])
   \<and> selected [90, 40, 35, 92, 20 :: real] 50 False = [1, 2, 4]"
  by code_simp

text \<open>
  Claim C4. The claim says that the analysis of an empty score sequence returns the
  fraction 0 with an empty list of run lengths. The code returns the fraction 0 with
  \<open>None\<close>, through its guard \<^verbatim>\<open>return 0, None\<close>.
\<close>

theorem empty_sequence_returns_None_counterexample:
  "getDisorderedFractionFrompLDDTs ([] :: real list) 50 1 = Inr (0, None)
   \<and> getDisorderedFractionFrompLDDTs ([] :: real list) 50 1 \<noteq> Inr (0, Some [])"
  by code_simp

text \<open>
  Claim C4 as amended: for the empty score sequence, every threshold and every cutoff the
  analysis returns \<open>(0, None)\<close> and raises nothing.
\<close>

theorem empty_sequence_returns_None:
  "getDisorderedFractionFrompLDDTs [] t m = Inr (0, None)"
  by (simp add: getDisorderedFractionFrompLDDTs_def getConsecutiveDisorderedFrompLDDTs_def
      getConsecutivepLDDTFromThreshold_def argwhere_def)



text \<open>
  Claim C6. The claim is stated for both directions. The analysis
  \<open>getDisorderedFractionFrompLDDTs\<close> takes no direction: it always selects the scores
  \<open>\<le>\<close> the threshold. For the order direction the claimed equation fails: for the
  single score 10 and the threshold 50 no score is \<open>\<ge>\<close> the threshold, so the claimed
  fraction is 0, and the analysis returns 1.
\<close>

theorem min_length_one_counts_every_residue_counterexample:
  "\<not> (\<exists>out. getDisorderedFractionFrompLDDTs [10 :: real] 50 1 =
        Inr (real (length (filter (\<lambda>p. p \<ge> 50) [10 :: real])) / real (length [10 :: real]),
             out))"
proof -
  have "getDisorderedFractionFrompLDDTs [10 :: real] 50 1 = Inr (1, Some [1])"
    by code_simp
  then show ?thesis by simp
qed

text \<open>
  Claim C6 as amended: for every non-empty score sequence and every threshold, the
  analysis with cutoff 1 returns the number of scores \<open>\<le>\<close> the threshold divided by the
  length of the sequence.
\<close>

theorem min_length_one_counts_every_residue:
  assumes "S \<noteq> []"
  shows "\<exists>out. getDisorderedFractionFrompLDDTs S t 1 =
      Inr (real (length (filter (\<lambda>p. p \<le> t) S)) / real (length S), out)"
proof (cases "selected S t False = []")
  case True
  then have "length (filter (\<lambda>p. p \<le> t) S) = 0"
    using length_selected[of S t False] by simp
  with fraction_none[OF True] show ?thesis by simp
next
  case False
  from fraction_some[OF False, of 1] obtain lens where
    s: "sum_list lens = length (filter (\<lambda>p. p \<le> t) S)" and p: "\<forall>l\<in>set lens. 1 \<le> l"
    and f: "getDisorderedFractionFrompLDDTs S t 1 =
        Inr (real (sum_list (filter (\<lambda>l. 1 \<le> int l) lens)) / real (length S),
             Some (filter (\<lambda>l. 1 \<le> int l) lens))"
    by blast
  have "filter (\<lambda>l. 1 \<le> int l) lens = lens"
    using p by (auto simp: filter_id_conv)
  with f s show ?thesis by simp
qed

text \<open>
  The theorem at \<open>[90, 40, 35, 92, 20]\<close> with threshold 50.
\<close>

theorem min_length_one_counts_every_residue_witness:
  "[90, 40, 35, 92, 20 :: real] \<noteq> []
   \<and> (\<exists>out. getDisorderedFractionFrompLDDTs [90, 40, 35, 92, 20 :: real] 50 1 =
        Inr (real (length (filter (\<lambda>p. p \<le> 50) [90, 40, 35, 92, 20 :: real]))
               / real (length [90, 40, 35, 92, 20 :: real]), out))"
proof -
  have h: "[90, 40, 35, 92, 20 :: real] \<noteq> []" by simp
  from min_length_one_counts_every_residue[OF h, of 50] h show ?thesis by blast
qed

text \<open>
  Claim C7. The claim is stated for both directions. The analysis
  \<open>getDisorderedFractionFrompLDDTs\<close> takes no direction: its runs are always the runs of
  scores \<open>\<le>\<close> the threshold. For the order direction the claimed equation fails: for the
  single score 10, the threshold 50 and the cutoff 1, run detection in the order
  direction finds no run, so the share of residues in qualifying runs is 0, and the
  analysis returns the fraction 1.
\<close>

theorem fraction_is_share_of_qualifying_residues_counterexample:
  "\<not> (\<exists>found fraction out.
        getConsecutiveOrderedFrompLDDTs [10 :: real] 50 = Inr found
      \<and> getDisorderedFractionFrompLDDTs [10 :: real] 50 1 = Inr (fraction, out)
      \<and> fraction =
          real (sum_list (filter (\<lambda>l. 1 \<le> int l)
                  (case snd found of None \<Rightarrow> [] | Some lens \<Rightarrow> lens)))
            / real (length [10 :: real]))"
proof -
  have a: "getConsecutiveOrderedFrompLDDTs [10 :: real] 50 = Inr (None, None)"
    by code_simp
  have b: "getDisorderedFractionFrompLDDTs [10 :: real] 50 1 = Inr (1, Some [1])"
    by code_simp
  show ?thesis unfolding a b by simp
qed

text \<open>
  Claim C7 as amended: for every non-empty score sequence, threshold and cutoff the
  analysis returns, and its fraction lies between 0 and 1 and equals the total residue
  count of the qualifying runs of the disorder direction divided by the length of the
  sequence. The qualifying runs are the runs that run detection finds for the scores
  \<open>\<le>\<close> the threshold and whose length reaches the cutoff; their lengths are the lengths
  the analysis returns (\<open>None\<close> when run detection found no run).
\<close>

theorem fraction_is_share_of_qualifying_residues:
  assumes "S \<noteq> []"
  shows "\<exists>found fraction out.
      getConsecutiveDisorderedFrompLDDTs S t = Inr found
    \<and> getDisorderedFractionFrompLDDTs S t m = Inr (fraction, out)
    \<and> out = map_option (filter (\<lambda>l. m \<le> int l)) (snd found)
    \<and> fraction = real (sum_list (case out of None \<Rightarrow> [] | Some q \<Rightarrow> q)) / real (length S)
    \<and> 0 \<le> fraction \<and> fraction \<le> 1"
proof (cases "selected S t False = []")
  case True
  with fraction_none[OF True, of m] run_detection_none[OF True] show ?thesis
    by (simp add: getConsecutiveDisorderedFrompLDDTs_def)
next
  case False
  from fraction_some[OF False, of m] obtain starts lens where
    r: "getConsecutiveDisorderedFrompLDDTs S t = Inr (Some starts, Some lens)"
    and s: "sum_list lens = length (filter (\<lambda>p. p \<le> t) S)"
    and f: "getDisorderedFractionFrompLDDTs S t m =
        Inr (real (sum_list (filter (\<lambda>l. m \<le> int l) lens)) / real (length S),
             Some (filter (\<lambda>l. m \<le> int l) lens))"
    by blast
  have "sum_list (filter (\<lambda>l. m \<le> int l) lens) \<le> length (filter (\<lambda>p. p \<le> t) S)"
    using sum_list_filter_le[of "\<lambda>l. m \<le> int l" lens] s by simp
  also have "\<dots> \<le> length S" by simp
  finally have "real (sum_list (filter (\<lambda>l. m \<le> int l) lens)) / real (length S) \<le> 1"
    using assms by simp
  with r f show ?thesis by simp
qed

text \<open>
  The theorem at \<open>[90, 40, 35, 92, 20, 15, 10, 88]\<close> with threshold 50 and cutoff 3.
\<close>

theorem fraction_is_share_of_qualifying_residues_witness:
  "[90, 40, 35, 92, 20, 15, 10, 88 :: real] \<noteq> []
   \<and> getConsecutiveDisorderedFrompLDDTs [90, 40, 35, 92, 20, 15, 10, 88 :: real] 50
       = Inr (Some [0, 2], Some [2, 3])
   \<and> getDisorderedFractionFrompLDDTs [90, 40, 35, 92, 20, 15, 10, 88 :: real] 50 3
       = Inr (3 / 8, Some [3])
   \<and> (0 :: real) \<le> 3 / 8 \<and> (3 :: real) / 8 \<le> 1"
proof -
  have h: "[90, 40, 35, 92, 20, 15, 10, 88 :: real] \<noteq> []" by simp
  have a: "getConsecutiveDisorderedFrompLDDTs [90, 40, 35, 92, 20, 15, 10, 88 :: real] 50
       = Inr (Some [0, 2], Some [2, 3])" by code_simp
  from fraction_is_share_of_qualifying_residues[OF h, of 50 3] a h show ?thesis
    by auto
qed

text \<open>
  Claim C8. The analysis returns \<open>(0, None)\<close> exactly when no score is \<open>\<le>\<close> the
  threshold, which is exactly when run detection returns \<open>(None, None)\<close>; and when run
  detection returns runs all shorter than the cutoff, the analysis returns the fraction 0
  with the empty list, not \<open>None\<close>.
\<close>

theorem no_disorder_None_versus_empty:
  "(getDisorderedFractionFrompLDDTs S t m = Inr (0, None)) = (\<forall>p\<in>set S. \<not> p \<le> t)
   \<and> (getConsecutiveDisorderedFrompLDDTs S t = Inr (None, None)) = (\<forall>p\<in>set S. \<not> p \<le> t)
   \<and> ((\<exists>starts lens. getConsecutiveDisorderedFrompLDDTs S t = Inr (Some starts, Some lens)
          \<and> (\<forall>l\<in>set lens. int l < m))
        \<longrightarrow> getDisorderedFractionFrompLDDTs S t m = Inr (0, Some []))"
proof (cases "selected S t False = []")
  case True
  with fraction_none[OF True, of m] run_detection_none[OF True] show ?thesis
    by (simp add: getConsecutiveDisorderedFrompLDDTs_def selected_Nil_iff)
next
  case False
  from fraction_some[OF False, of m] obtain starts lens where
    r: "getConsecutiveDisorderedFrompLDDTs S t = Inr (Some starts, Some lens)"
    and f: "getDisorderedFractionFrompLDDTs S t m =
        Inr (real (sum_list (filter (\<lambda>l. m \<le> int l) lens)) / real (length S),
             Some (filter (\<lambda>l. m \<le> int l) lens))"
    by blast
  have short: "filter (\<lambda>l. m \<le> int l) lens = []" if "\<forall>l\<in>set lens. int l < m"
    using that by (auto simp: filter_empty_conv)
  from False have some: "\<not> (\<forall>p\<in>set S. \<not> p \<le> t)" by (simp add: selected_Nil_iff)
  show ?thesis using r f some short by auto
qed

text \<open>
  The theorem at \<open>[90, 95]\<close> (no score below the threshold 50) and at \<open>[10, 90, 10]\<close>
  (two runs of length 1, cutoff 2).
\<close>

theorem no_disorder_None_versus_empty_witness:
  "getDisorderedFractionFrompLDDTs [90, 95 :: real] 50 2 = Inr (0, None)
   \<and> getConsecutiveDisorderedFrompLDDTs [10, 90, 10 :: real] 50 = Inr (Some [0, 1], Some [1, 1])
   \<and> getDisorderedFractionFrompLDDTs [10, 90, 10 :: real] 50 2 = Inr (0, Some [])"
proof -
  have a: "\<forall>p\<in>set [90, 95 :: real]. \<not> p \<le> 50" by simp
  have b: "getConsecutiveDisorderedFrompLDDTs [10, 90, 10 :: real] 50
             = Inr (Some [0, 1], Some [1, 1])" by code_simp
  have c: "\<forall>l\<in>set [1, 1 :: nat]. int l < 2" by simp
  from no_disorder_None_versus_empty[of "[90, 95 :: real]" 50 2] a
  have 1: "getDisorderedFractionFrompLDDTs [90, 95 :: real] 50 2 = Inr (0, None)" by blast
  from no_disorder_None_versus_empty[of "[10, 90, 10 :: real]" 50 2] b c
  have 2: "getDisorderedFractionFrompLDDTs [10, 90, 10 :: real] 50 2 = Inr (0, Some [])"
    by blast
  from 1 b 2 show ?thesis by blast
qed

text \<open>
  Claim C9. With both bounds given: when the three validations hold (and the scores can
  be read), the extractor returns the slice \<^verbatim>\<open>scores[startRes-1:endRes]\<close>, which for
  1-based bounds (\<open>1 \<le> startRes\<close>) is the entries at the zero-based positions
  \<open>startRes - 1, \<dots>, endRes - 1\<close>; when a validation fails, the extractor fails with the
  assertion of the first validation that is violated. The spec's RangeError is the
  code's AssertionError, with the three messages of the source.
\<close>

theorem subsequence_slice_and_validation:
  "(getpLDDTsFromAlphaFoldPDBModel pdb_model = Inr scores
      \<and> startRes \<le> endRes
      \<and> endRes - startRes \<le> int (length scores)
      \<and> endRes \<le> int (length scores)
     \<longrightarrow> getpLDDTsSubSequenceFromAlphaFoldPDBModel pdb_model (Some startRes) (Some endRes)
           = Inr (py_slice scores (startRes - 1) endRes)
       \<and> (1 \<le> startRes \<longrightarrow>
            py_slice scores (startRes - 1) endRes
              = take (nat (endRes - (startRes - 1))) (drop (nat (startRes - 1)) scores)))
   \<and> (\<not> startRes \<le> endRes
     \<longrightarrow> getpLDDTsSubSequenceFromAlphaFoldPDBModel pdb_model (Some startRes) (Some endRes)
           = Inl (AssertionError
               ''Start Residue number sub-sequence is greater than end residue number!''))
   \<and> (startRes \<le> endRes \<and> \<not> endRes - startRes \<le> int (length (get_residues pdb_model))
     \<longrightarrow> getpLDDTsSubSequenceFromAlphaFoldPDBModel pdb_model (Some startRes) (Some endRes)
           = Inl (AssertionError ''Residue Sub Selection larger than AlphaFold sequence!''))
   \<and> (startRes \<le> endRes \<and> endRes - startRes \<le> int (length (get_residues pdb_model))
        \<and> \<not> endRes \<le> int (length (get_residues pdb_model))
     \<longrightarrow> getpLDDTsSubSequenceFromAlphaFoldPDBModel pdb_model (Some startRes) (Some endRes)
           = Inl (AssertionError ''Residue Sub Selection outside of AlphaFold Sequence!''))"
proof (intro conjI impI)
  assume h: "getpLDDTsFromAlphaFoldPDBModel pdb_model = Inr scores
      \<and> startRes \<le> endRes
      \<and> endRes - startRes \<le> int (length scores)
      \<and> endRes \<le> int (length scores)"
  then have n: "length (get_residues pdb_model) = length scores"
    using length_getpLDDTs[of pdb_model scores] by simp
  show "getpLDDTsSubSequenceFromAlphaFoldPDBModel pdb_model (Some startRes) (Some endRes)
           = Inr (py_slice scores (startRes - 1) endRes)"
    using h by (simp add: getpLDDTsSubSequenceFromAlphaFoldPDBModel_def n)
  assume "1 \<le> startRes"
  with h show "py_slice scores (startRes - 1) endRes
              = take (nat (endRes - (startRes - 1))) (drop (nat (startRes - 1)) scores)"
    by (intro py_slice_in_range) simp_all
qed (simp_all add: getpLDDTsSubSequenceFromAlphaFoldPDBModel_def)

text \<open>
  The theorem at a model of three residues: the range \<open>[2, 3]\<close>, and one input for each
  failing validation.
\<close>

theorem subsequence_slice_and_validation_witness:
  "getpLDDTsFromAlphaFoldPDBModel
       (Model [Residue [Atom 10], Residue [Atom 20, Atom 99], Residue [Atom (30 :: real)]])
     = Inr [10, 20, 30]
   \<and> getpLDDTsSubSequenceFromAlphaFoldPDBModel
       (Model [Residue [Atom 10], Residue [Atom 20, Atom 99], Residue [Atom (30 :: real)]])
       (Some 2) (Some 3)
     = Inr [20, 30]
   \<and> getpLDDTsSubSequenceFromAlphaFoldPDBModel
       (Model [Residue [Atom 10], Residue [Atom 20, Atom 99], Residue [Atom (30 :: real)]])
       (Some 3) (Some 2)
     = Inl (AssertionError
         ''Start Residue number sub-sequence is greater than end residue number!'')
   \<and> getpLDDTsSubSequenceFromAlphaFoldPDBModel
       (Model [Residue [Atom 10], Residue [Atom 20, Atom 99], Residue [Atom (30 :: real)]])
       (Some (- 5)) (Some 0)
     = Inl (AssertionError ''Residue Sub Selection larger than AlphaFold sequence!'')
   \<and> getpLDDTsSubSequenceFromAlphaFoldPDBModel
       (Model [Residue [Atom 10], Residue [Atom 20, Atom 99], Residue [Atom (30 :: real)]])
       (Some 2) (Some 4)
     = Inl (AssertionError ''Residue Sub Selection outside of AlphaFold Sequence!'')"
proof -
  let ?m = "Model [Residue [Atom 10], Residue [Atom 20, Atom 99], Residue [Atom (30 :: real)]]"
  have s: "getpLDDTsFromAlphaFoldPDBModel ?m = Inr [10, 20, 30]"
    by (simp add: getpLDDTsFromAlphaFoldPDBModel_def)
  have n: "int (length (get_residues ?m)) = 3" by simp
  have "getpLDDTsSubSequenceFromAlphaFoldPDBModel ?m (Some 2) (Some 3)
      = Inr (take (nat (3 - (2 - 1))) (drop (nat (2 - 1)) [10, 20, 30]))"
    using subsequence_slice_and_validation[of ?m "[10, 20, 30]" 2 3] s by simp
  then have 1: "getpLDDTsSubSequenceFromAlphaFoldPDBModel ?m (Some 2) (Some 3) = Inr [20, 30]"
    by simp
  have 2: "getpLDDTsSubSequenceFromAlphaFoldPDBModel ?m (Some 3) (Some 2)
     = Inl (AssertionError
         ''Start Residue number sub-sequence is greater than end residue number!'')"
    using subsequence_slice_and_validation[of ?m "[10, 20, 30]" 3 2] by simp
  have 3: "getpLDDTsSubSequenceFromAlphaFoldPDBModel ?m (Some (- 5)) (Some 0)
     = Inl (AssertionError ''Residue Sub Selection larger than AlphaFold sequence!'')"
    using subsequence_slice_and_validation[of ?m "[10, 20, 30]" "- 5" 0] n by simp
  have 4: "getpLDDTsSubSequenceFromAlphaFoldPDBModel ?m (Some 2) (Some 4)
     = Inl (AssertionError ''Residue Sub Selection outside of AlphaFold Sequence!'')"
    using subsequence_slice_and_validation[of ?m "[10, 20, 30]" 2 4] n by simp
  from s 1 2 3 4 show ?thesis by blast
qed

text \<open>
  Claim C10. When exactly one of \<open>startRes\<close> and \<open>endRes\<close> is given, the extractor
  fails with the assertion error of the check that both are given; so a call that
  returns scores has both bounds or neither.
\<close>

theorem one_bound_only_fails:
  "((startRes = None) \<noteq> (endRes = None)
      \<longrightarrow> getpLDDTsSubSequenceFromAlphaFoldPDBModel pdb_model startRes endRes
            = Inl (AssertionError
                ''Must provide BOTH of start res and end res if specified''))
   \<and> (\<forall>scores. getpLDDTsSubSequenceFromAlphaFoldPDBModel pdb_model startRes endRes = Inr scores
        \<longrightarrow> (startRes = None) = (endRes = None))"
  by (cases startRes; cases endRes)
     (simp_all add: getpLDDTsSubSequenceFromAlphaFoldPDBModel_def)

text \<open>
  The theorem at a model of two residues, with the two forms that succeed beside it.
\<close>

theorem one_bound_only_fails_witness:
  "getpLDDTsSubSequenceFromAlphaFoldPDBModel
       (Model [Residue [Atom 10], Residue [Atom (20 :: real)]]) (Some 1) None
     = Inl (AssertionError ''Must provide BOTH of start res and end res if specified'')
   \<and> getpLDDTsSubSequenceFromAlphaFoldPDBModel
       (Model [Residue [Atom 10], Residue [Atom (20 :: real)]]) None (Some 2)
     = Inl (AssertionError ''Must provide BOTH of start res and end res if specified'')
   \<and> getpLDDTsSubSequenceFromAlphaFoldPDBModel
       (Model [Residue [Atom 10], Residue [Atom (20 :: real)]]) None None
     = Inr [10, 20]
   \<and> getpLDDTsSubSequenceFromAlphaFoldPDBModel
       (Model [Residue [Atom 10], Residue [Atom (20 :: real)]]) (Some 1) (Some 2)
     = Inr [10, 20]"
proof -
  let ?m = "Model [Residue [Atom 10], Residue [Atom (20 :: real)]]"
  have 1: "getpLDDTsSubSequenceFromAlphaFoldPDBModel ?m (Some 1) None
     = Inl (AssertionError ''Must provide BOTH of start res and end res if specified'')"
    using one_bound_only_fails[of "Some 1" None ?m] by simp
  have 2: "getpLDDTsSubSequenceFromAlphaFoldPDBModel ?m None (Some 2)
     = Inl (AssertionError ''Must provide BOTH of start res and end res if specified'')"
    using one_bound_only_fails[of None "Some 2" ?m] by simp
  have 3: "getpLDDTsSubSequenceFromAlphaFoldPDBModel ?m None None = Inr [10, 20]"
    by code_simp
  have 4: "getpLDDTsSubSequenceFromAlphaFoldPDBModel ?m (Some 1) (Some 2) = Inr [10, 20]"
    by code_simp
  from 1 2 3 4 show ?thesis by blast
qed

end
